theory Spec2Isabelle
  imports
    Main
    "HOL-Library.Char_ord"
    "HOL-Library.List_Lexorder"
    "HOL-Library.Product_Lexorder"
    "HOL-Library.Multiset"
begin

section \<open>Tables\<close>

text \<open>
  The program is one Python function, \<^verbatim>\<open>run_flexible_cohort_analysis\<close> of
  \<^verbatim>\<open>main-code.py\<close>, built from calls into pandas. A pandas \<^verbatim>\<open>DataFrame\<close> is
  modelled by its ordered column labels and its rows in order; a row maps a column label
  to a cell, and the cell \<open>None\<close> is the missing marker (\<^verbatim>\<open>NaN\<close>, \<^verbatim>\<open>NaT\<close>) that
  pandas puts wherever a row has no value for a column. A value is a date (a
  \<^verbatim>\<open>Timestamp\<close> of a \<^verbatim>\<open>datetime64\<close> column, as a day number), a number or a string.
  The pipeline does no arithmetic on numbers: it carries them through.

  The row labels (the index) are not modelled: \<^verbatim>\<open>pd.concat(..., ignore_index=True)\<close>
  numbers the rows afresh, the sort permutes labels with their rows, and the one
  label-aligned assignment (line 44) assigns a column computed from the same table.
\<close>

datatype val = Date int | Num int | Str string

type_synonym cell = "val option"

type_synonym row = "string \<Rightarrow> cell"

record frame =
  columns :: "string list"
  rows :: "row list"

text \<open>
  In a table of pandas a row has cells for the table's own columns only and no label
  heads two columns: the representation invariant of \<open>frame\<close>.
\<close>

definition wf_frame :: "frame \<Rightarrow> bool" where
  "wf_frame df \<longleftrightarrow> distinct (columns df) \<and> list_all (\<lambda>r. dom r \<subseteq> set (columns df)) (rows df)"

text \<open>\<^verbatim>\<open>df[col]\<close> for a column that exists: the cells of the column, in row order.\<close>

definition column :: "frame \<Rightarrow> string \<Rightarrow> cell list" where
  "column df col = map (\<lambda>r. r col) (rows df)"

subsection \<open>Column labels of the program\<close>

abbreviation ACQ :: string where "ACQ \<equiv> ''Acquisition Week''"

abbreviation OS :: string where "OS \<equiv> ''OS''"

abbreviation WEEKNO :: string where "WEEKNO \<equiv> ''Week Number''"

text \<open>The euro sign of \<^verbatim>\<open>'Payout Total (EUR-sign)'\<close> is three bytes in UTF-8.\<close>

definition euro :: string where
  "euro = [CHR 0xE2, CHR 0x82, CHR 0xAC]"

definition weeks_of_interest :: "string list" where
  "weeks_of_interest =
     [''Week 8'', ''Week 12'', ''Week 16'', ''Week 20'',
      ''Week 24'', ''Week 28'', ''Week 32'', ''Week 36'', ''Week 40'']"

definition target_columns :: "string list" where
  "target_columns =
     [ACQ, WEEKNO, OS,
      ''Total Subscriptions'', ''Total Unsubscriptions'', ''Subs Remaining'',
      ''Payout Total ('' @ euro @ '')'', ''Total Gross ('' @ euro @ '')'', ''Margin'']
     @ weeks_of_interest"

section \<open>The pandas and Python operations the pipeline calls\<close>

datatype py_error = KeyError string | TypeError

text \<open>
  \<^verbatim>\<open>df.copy()\<close> returns a new table with the same labels and cells. In this value
  model it is the identity; that the new table is a different object is the subject of
  the store model below.
\<close>

definition copy :: "frame \<Rightarrow> frame" where
  "copy df = df"

text \<open>
  \<^verbatim>\<open>df[col] = scalar\<close>: every row gets the scalar in column \<open>col\<close>; a column that
  exists keeps its place and loses its old cells, a new one is appended.
\<close>

definition setitem_scalar :: "frame \<Rightarrow> string \<Rightarrow> val \<Rightarrow> frame" where
  "setitem_scalar df col v =
     \<lparr>columns = (if col \<in> set (columns df) then columns df else columns df @ [col]),
      rows = map (\<lambda>r. r(col \<mapsto> v)) (rows df)\<rparr>"

text \<open>\<^verbatim>\<open>df[col] = series\<close> for a series with one cell per row of \<open>df\<close>.\<close>

definition setitem_series :: "frame \<Rightarrow> string \<Rightarrow> cell list \<Rightarrow> frame" where
  "setitem_series df col s =
     \<lparr>columns = (if col \<in> set (columns df) then columns df else columns df @ [col]),
      rows = map (\<lambda>(r, v). r(col := v)) (zip (rows df) s)\<rparr>"

text \<open>
  \<^verbatim>\<open>Series.unique()\<close>: the distinct cells in order of first appearance (all missing
  cells count as one).
\<close>

definition unique :: "'a list \<Rightarrow> 'a list" where
  "unique xs = rev (remdups (rev xs))"

text \<open>
  \<^verbatim>\<open>pd.concat(dfs, ignore_index=True)\<close> on a non-empty list: the rows of the tables
  one after the other; the columns are the union of the tables' columns in order of first
  appearance, and a row has the missing marker in the columns its table lacked (which a
  \<open>row\<close> of a well-formed table already says).
\<close>

definition pd_concat :: "frame list \<Rightarrow> frame" where
  "pd_concat dfs =
     \<lparr>columns = unique (concat (map columns dfs)), rows = concat (map rows dfs)\<rparr>"

text \<open>
  The order of \<^verbatim>\<open>sort_values\<close> and \<^verbatim>\<open>sorted\<close> on the cells of one column: dates
  by day, numbers by size, strings by code point (on UTF-8 bytes the same order), the
  missing marker after every value (\<^verbatim>\<open>na_position='last'\<close>). Values of two kinds are
  never compared by a run that returns (see \<open>py_sorted\<close>); the key orders them by kind
  to be total.
\<close>

fun val_key :: "val \<Rightarrow> nat \<times> int \<times> string" where
  "val_key (Date d) = (0, d, [])"
| "val_key (Num n) = (1, n, [])"
| "val_key (Str s) = (2, 0, s)"

fun cell_key :: "cell \<Rightarrow> bool \<times> nat \<times> int \<times> string" where
  "cell_key None = (True, 0, 0, [])"
| "cell_key (Some v) = (False, val_key v)"

definition row_key :: "string list \<Rightarrow> row \<Rightarrow> (bool \<times> nat \<times> int \<times> string) list" where
  "row_key keys r = map (\<lambda>col. cell_key (r col)) keys"

text \<open>
  \<^verbatim>\<open>df.sort_values(by=keys)\<close> with two or more keys: \<^verbatim>\<open>KeyError\<close> for the first key
  that is no column; otherwise a new table with the rows in ascending lexicographic order
  of their key cells. With several keys pandas sorts by a stable method (a lexsort over
  the keys' codes), so rows with equal keys keep their order: \<open>sort_key\<close> is a stable
  insertion sort.
\<close>

definition sort_values :: "frame \<Rightarrow> string list \<Rightarrow> py_error + frame" where
  "sort_values df keys =
     (case filter (\<lambda>col. col \<notin> set (columns df)) keys of
        col # _ \<Rightarrow> Inl (KeyError col)
      | [] \<Rightarrow> Inr (df\<lparr>rows := sort_key (row_key keys) (rows df)\<rparr>))"

text \<open>
  Python's \<^verbatim>\<open>sorted\<close> compares elements with \<^verbatim>\<open><\<close>, which raises \<^verbatim>\<open>TypeError\<close>
  between a date and a number, between a string and a date or a number, and between a
  string and the missing marker of a column of strings (a float \<^verbatim>\<open>nan\<close>). Dates
  compare with \<^verbatim>\<open>NaT\<close> and numbers with \<^verbatim>\<open>nan\<close> without raising. A list of at
  most one element is returned without a comparison. (On values of mixed kinds
  \<^verbatim>\<open>sort_values\<close> of line 38 may raise the \<^verbatim>\<open>TypeError\<close> already; the run ends
  with the same exception.) Where nothing raises, the result is the list in ascending
  order, the missing marker last. Line 41 is the only call, on a list that is in that
  order already (lemma \<open>unique_dates_already_sorted\<close>): Python's sort finds one
  ascending run and returns the list unchanged, also where a comparison with \<^verbatim>\<open>NaT\<close>
  or \<^verbatim>\<open>nan\<close> is false both ways.
\<close>

datatype kind = KDate | KNum | KStr

fun kind_of :: "val \<Rightarrow> kind" where
  "kind_of (Date d) = KDate"
| "kind_of (Num n) = KNum"
| "kind_of (Str s) = KStr"

definition kinds :: "cell list \<Rightarrow> kind list" where
  "kinds xs = remdups (map kind_of (List.map_filter id xs))"

definition orderable :: "cell list \<Rightarrow> bool" where
  "orderable xs \<longleftrightarrow>
     length xs \<le> 1 \<or> kinds xs = [] \<or> kinds xs = [KDate] \<or> kinds xs = [KNum]
     \<or> (kinds xs = [KStr] \<and> None \<notin> set xs)"

definition py_sorted :: "cell list \<Rightarrow> py_error + cell list" where
  "py_sorted xs = (if orderable xs then Inr (sort_key cell_key xs) else Inl TypeError)"

text \<open>
  The decimal digits of a natural number, as an f-string prints \<^verbatim>\<open>{i+1}\<close>: no
  padding, no sign.
\<close>

definition digit_char :: "nat \<Rightarrow> char" where
  "digit_char n = ''0123456789'' ! n"

fun str_nat :: "nat \<Rightarrow> string" where
  "str_nat n = (if n < 10 then [digit_char n] else str_nat (n div 10) @ [digit_char (n mod 10)])"

declare str_nat.simps [simp del]

text \<open>
  \<^verbatim>\<open>{date: f"Week {i+1}" for i, date in enumerate(unique_dates)}\<close>: the dictionary
  as the list of its items. The keys are distinct, so no item overwrites another.
\<close>

definition week_items :: "cell list \<Rightarrow> (cell \<times> string) list" where
  "week_items unique_dates =
     map (\<lambda>(i, date). (date, ''Week '' @ str_nat (i + 1))) (enumerate 0 unique_dates)"

text \<open>
  \<^verbatim>\<open>series.map(d)\<close> for a dictionary \<open>d\<close>: each cell is looked up among the keys
  (pandas turns the dictionary into a series and looks the cells up in its index, where
  a missing cell finds a missing key); a cell that is no key maps to the missing marker.
\<close>

definition series_map :: "cell list \<Rightarrow> (cell \<times> string) list \<Rightarrow> cell list" where
  "series_map s d = map (\<lambda>x. map_option Str (map_of d x)) s"

text \<open>
  \<^verbatim>\<open>df[cols]\<close> for a list of labels that are all columns of \<open>df\<close> (line 60 keeps
  only such labels): a new table of these columns in the order of the list.
\<close>

definition getitem_cols :: "frame \<Rightarrow> string list \<Rightarrow> frame" where
  "getitem_cols df cols = \<lparr>columns = cols, rows = map (\<lambda>r. r |` set cols) (rows df)\<rparr>"

text \<open>
  \<^verbatim>\<open>df.melt(id_vars, value_vars, var_name, value_name)\<close>: for each value column in
  turn, one row per row of \<open>df\<close> with the identifier cells, the column's label and the
  row's cell of that column.
\<close>

definition melt :: "frame \<Rightarrow> string list \<Rightarrow> string list \<Rightarrow> string \<Rightarrow> string \<Rightarrow> frame" where
  "melt df id_vars value_vars var_name value_name =
     \<lparr>columns = id_vars @ [var_name, value_name],
      rows = concat (map (\<lambda>col.
               map (\<lambda>r. ((r |` set id_vars)(var_name \<mapsto> Str col))(value_name := r col)) (rows df))
             value_vars)\<rparr>"

section \<open>The pipeline\<close>

text \<open>
  What a call does that its caller can observe besides the result: the box plot handed to
  plotly and shown (with the long table it is drawn from), and lines printed.
\<close>

datatype event = Show_box frame | Print_line string

text \<open>
  A call ends by raising, by returning the error string of line 33, or by returning the
  final table.
\<close>

datatype result = Raise py_error | Return_str string | Return_frame frame

text \<open>Lines 21 to 29: each table is copied and the copy tagged with its key.\<close>

definition processed_dfs :: "(string \<times> frame) list \<Rightarrow> frame list" where
  "processed_dfs data_frames_dict =
     map (\<lambda>(source_name, df_raw). setitem_scalar (copy df_raw) OS (Str source_name))
       data_frames_dict"

text \<open>
  Lines 66 to 94: the box plot of the checkpoint columns, or the warning when the table
  has none of them.
\<close>

definition dispersion_analysis :: "frame \<Rightarrow> event list" where
  "dispersion_analysis df_final =
     (let cols_to_melt = filter (\<lambda>col. col \<in> set (columns df_final)) weeks_of_interest in
      if cols_to_melt \<noteq> [] then
        [Show_box (melt df_final [OS] cols_to_melt ''Cohort_Period'' (''Value ('' @ euro @ '')''))]
      else
        [Print_line
          ''Warning: No columns found for the requested weeks (Week 8, 12, etc.) in the data.''])"

text \<open>
  The function, line by line. The dictionary is the list of its items in insertion order
  (its keys are distinct).
\<close>

definition run_flexible_cohort_analysis :: "(string \<times> frame) list \<Rightarrow> result \<times> event list" where
  "run_flexible_cohort_analysis data_frames_dict =
     (if processed_dfs data_frames_dict = [] then
        (Return_str ''Error: No dataframes provided.'', [])
      else
        case sort_values (pd_concat (processed_dfs data_frames_dict)) [ACQ, OS] of
          Inl e \<Rightarrow> (Raise e, [])
        | Inr df_combined \<Rightarrow>
            (case py_sorted (unique (column df_combined ACQ)) of
               Inl e \<Rightarrow> (Raise e, [])
             | Inr unique_dates \<Rightarrow>
                 (let date_to_week_map = week_items unique_dates;
                      df_combined = setitem_series df_combined WEEKNO
                        (series_map (column df_combined ACQ) date_to_week_map);
                      final_cols = filter (\<lambda>col. col \<in> set (columns df_combined)) target_columns;
                      df_final = getitem_cols df_combined final_cols
                  in (Return_frame df_final, dispersion_analysis df_final))))"

section \<open>The pipeline on a store of table objects\<close>

text \<open>
  Python passes tables by reference, and \<^verbatim>\<open>df[col] = ...\<close> changes a table in
  place. To say what a call does to its caller's tables the store is made explicit: a
  table object is an address into the list of all tables, the dictionary maps labels to
  addresses (two labels may share one), a method that returns a new table allocates, and
  an assignment to a column updates the table at its address. Rebinding a Python
  variable (\<^verbatim>\<open>df_combined = df_combined.sort_values(...)\<close>) changes no object.
  The long table of line 71 goes to the plot and is not kept in the store.
\<close>

type_synonym addr = nat

type_synonym store = "frame list"

definition alloc :: "store \<Rightarrow> frame \<Rightarrow> store \<times> addr" where
  "alloc h df = (h @ [df], length h)"

text \<open>\<^verbatim>\<open>df_raw.copy()\<close>: a new object with the cells of the old one (a deep copy).\<close>

definition copy_obj :: "store \<Rightarrow> addr \<Rightarrow> store \<times> addr" where
  "copy_obj h a = alloc h (copy (h ! a))"

text \<open>\<^verbatim>\<open>df_temp['OS'] = source_name\<close>: the object at the address is changed.\<close>

definition setitem_scalar_obj :: "store \<Rightarrow> addr \<Rightarrow> string \<Rightarrow> val \<Rightarrow> store" where
  "setitem_scalar_obj h a col v = h[a := setitem_scalar (h ! a) col v]"

definition setitem_series_obj :: "store \<Rightarrow> addr \<Rightarrow> string \<Rightarrow> cell list \<Rightarrow> store" where
  "setitem_series_obj h a col s = h[a := setitem_series (h ! a) col s]"

text \<open>The loop of lines 21 to 29; \<open>processed\<close> is the list \<^verbatim>\<open>processed_dfs\<close>.\<close>

fun tag_loop :: "store \<Rightarrow> (string \<times> addr) list \<Rightarrow> addr list \<Rightarrow> store \<times> addr list" where
  "tag_loop h [] processed = (h, processed)"
| "tag_loop h ((source_name, df_raw) # rest) processed =
     (let (h1, df_temp) = copy_obj h df_raw;
          h2 = setitem_scalar_obj h1 df_temp OS (Str source_name)
      in tag_loop h2 rest (processed @ [df_temp]))"

datatype result_obj = Raise_obj py_error | Return_str_obj string | Return_obj addr

definition run_flexible_cohort_analysis_obj ::
    "store \<Rightarrow> (string \<times> addr) list \<Rightarrow> store \<times> result_obj \<times> event list" where
  "run_flexible_cohort_analysis_obj h data_frames_dict =
     (let (h1, processed) = tag_loop h data_frames_dict [] in
      if processed = [] then
        (h1, Return_str_obj ''Error: No dataframes provided.'', [])
      else
        let (h2, df_concat) = alloc h1 (pd_concat (map (\<lambda>a. h1 ! a) processed)) in
        case sort_values (h2 ! df_concat) [ACQ, OS] of
          Inl e \<Rightarrow> (h2, Raise_obj e, [])
        | Inr df_sorted \<Rightarrow>
            let (h3, df_combined) = alloc h2 df_sorted in
            (case py_sorted (unique (column (h3 ! df_combined) ACQ)) of
               Inl e \<Rightarrow> (h3, Raise_obj e, [])
             | Inr unique_dates \<Rightarrow>
                 (let date_to_week_map = week_items unique_dates;
                      h4 = setitem_series_obj h3 df_combined WEEKNO
                        (series_map (column (h3 ! df_combined) ACQ) date_to_week_map);
                      final_cols =
                        filter (\<lambda>col. col \<in> set (columns (h4 ! df_combined))) target_columns;
                      (h5, df_final) = alloc h4 (getitem_cols (h4 ! df_combined) final_cols)
                  in (h5, Return_obj df_final, dispersion_analysis (h5 ! df_final)))))"

text \<open>The tables a dictionary of addresses holds, and what a result refers to.\<close>

definition deref :: "store \<Rightarrow> (string \<times> addr) list \<Rightarrow> (string \<times> frame) list" where
  "deref h data_frames_dict = map (\<lambda>(source_name, a). (source_name, h ! a)) data_frames_dict"

fun result_in :: "store \<Rightarrow> result_obj \<Rightarrow> result" where
  "result_in h (Raise_obj e) = Raise e"
| "result_in h (Return_str_obj s) = Return_str s"
| "result_in h (Return_obj a) = Return_frame (h ! a)"

section \<open>What a run computes, in closed form\<close>

text \<open>
  The intermediate tables of a run on the dictionary \<open>d\<close>, named after what the program
  holds at each line: the rows of the concatenation of the tagged copies (line 35), its
  columns, the rows after the sort (line 38), the sorted distinct dates (line 41), the
  week label of a date (line 42), the columns kept (line 60) and a row of the final
  table (lines 44 and 61).
\<close>

definition tagged_rows :: "(string \<times> frame) list \<Rightarrow> row list" where
  "tagged_rows d = concat (map (\<lambda>(l, df). map (\<lambda>r. r(OS \<mapsto> Str l)) (rows df)) d)"

definition combined_columns :: "(string \<times> frame) list \<Rightarrow> string list" where
  "combined_columns d = columns (pd_concat (processed_dfs d))"

definition sorted_rows :: "(string \<times> frame) list \<Rightarrow> row list" where
  "sorted_rows d = sort_key (row_key [ACQ, OS]) (tagged_rows d)"

definition week_dates :: "(string \<times> frame) list \<Rightarrow> cell list" where
  "week_dates d = sort_key cell_key (unique (map (\<lambda>r. r ACQ) (sorted_rows d)))"

definition week_number :: "(string \<times> frame) list \<Rightarrow> cell \<Rightarrow> cell" where
  "week_number d c = map_option Str (map_of (week_items (week_dates d)) c)"

definition final_cols :: "(string \<times> frame) list \<Rightarrow> string list" where
  "final_cols d =
     filter (\<lambda>col. col \<in> set (combined_columns d) \<or> col = WEEKNO) target_columns"

definition final_row :: "(string \<times> frame) list \<Rightarrow> row \<Rightarrow> row" where
  "final_row d r = (r(WEEKNO := week_number d (r ACQ))) |` set (final_cols d)"

definition final_frame :: "(string \<times> frame) list \<Rightarrow> frame" where
  "final_frame d = \<lparr>columns = final_cols d, rows = map (final_row d) (sorted_rows d)\<rparr>"

section \<open>Input conditions and example inputs\<close>

text \<open>
  The specification's data model makes \<^verbatim>\<open>Acquisition Week\<close> a date: a cell of that
  column is a date or the missing marker.
\<close>

definition is_date_cell :: "cell \<Rightarrow> bool" where
  "is_date_cell c = (case c of None \<Rightarrow> True | Some v \<Rightarrow> kind_of v = KDate)"

definition acq_is_date :: "(string \<times> frame) list \<Rightarrow> bool" where
  "acq_is_date d = list_all (\<lambda>(l, df). list_all (\<lambda>r. is_date_cell (r ACQ)) (rows df)) d"

definition total_rows :: "(string \<times> frame) list \<Rightarrow> nat" where
  "total_rows d = sum_list (map (\<lambda>(l, df). length (rows df)) d)"

text \<open>
  Two small tables. Dates are day numbers (19723 is 2024-01-01, 19730 a week later). The
  Android table comes with an \<^verbatim>\<open>OS\<close> column of its own, a column outside the
  program's list, and its rows out of date order.
\<close>

definition ex_android :: frame where
  "ex_android =
     \<lparr>columns = [ACQ, OS, ''Week 8'', ''Notes''],
      rows = [[ACQ \<mapsto> Date 19730, OS \<mapsto> Str ''stale'', ''Week 8'' \<mapsto> Num 100,
               ''Notes'' \<mapsto> Str ''b''],
              [ACQ \<mapsto> Date 19723, OS \<mapsto> Str ''stale'', ''Week 8'' \<mapsto> Num 90]]\<rparr>"

definition ex_ios :: frame where
  "ex_ios =
     \<lparr>columns = [ACQ, ''Week 12''],
      rows = [[ACQ \<mapsto> Date 19723, ''Week 12'' \<mapsto> Num 150]]\<rparr>"

definition ex_dict :: "(string \<times> frame) list" where
  "ex_dict = [(''iOS'', ex_ios), (''Android'', ex_android)]"

section \<open>Column projection and further example inputs\<close>

text \<open>Line 60: the labels of a list that are columns of the table, in the list's order.\<close>

definition keep_present :: "string list \<Rightarrow> string list \<Rightarrow> string list" where
  "keep_present allow present = filter (\<lambda>col. col \<in> set present) allow"

text \<open>The columns of \<^verbatim>\<open>df_combined\<close> at line 60, after \<^verbatim>\<open>Week Number\<close> was set.\<close>

definition present_columns :: "(string \<times> frame) list \<Rightarrow> string list" where
  "present_columns d =
     (if WEEKNO \<in> set (combined_columns d) then combined_columns d
      else combined_columns d @ [WEEKNO])"

text \<open>
  The allow-list as the specification words it (section 4.1, step 6): the two money
  columns without the unit that their labels carry in the program.
\<close>

definition spec_allow_list :: "string list" where
  "spec_allow_list =
     [ACQ, WEEKNO, OS,
      ''Total Subscriptions'', ''Total Unsubscriptions'', ''Subs Remaining'',
      ''Payout Total'', ''Total Gross'', ''Margin'',
      ''Week 8'', ''Week 12'', ''Week 16'', ''Week 20'',
      ''Week 24'', ''Week 28'', ''Week 32'', ''Week 36'', ''Week 40'']"

text \<open>
  A table with both spellings of the payout column; a table without
  \<^verbatim>\<open>Acquisition Week\<close>, alone and beside one that has it.
\<close>

definition ex_payout :: "(string \<times> frame) list" where
  "ex_payout =
     [(''Android'',
       \<lparr>columns = [ACQ, ''Payout Total'', ''Payout Total ('' @ euro @ '')''],
        rows = [[ACQ \<mapsto> Date 19723, ''Payout Total'' \<mapsto> Num 5,
                 ''Payout Total ('' @ euro @ '')'' \<mapsto> Num 6]]\<rparr>)]"

definition ex_web :: frame where
  "ex_web = \<lparr>columns = [''Week 8''], rows = [[''Week 8'' \<mapsto> Num 7]]\<rparr>"

definition ex_no_acq :: "(string \<times> frame) list" where
  "ex_no_acq = [(''Web'', ex_web)]"

definition ex_partial :: "(string \<times> frame) list" where
  "ex_partial = [(''Web'', ex_web), (''iOS'', ex_ios)]"

section \<open>Rows with their source, week labels\<close>

text \<open>The input rows in dictionary order, each with the key of its table.\<close>

definition labelled_rows :: "(string \<times> frame) list \<Rightarrow> (string \<times> row) list" where
  "labelled_rows d = concat (map (\<lambda>(l, df). map (Pair l) (rows df)) d)"


section \<open>Stores of the caller\<close>

text \<open>Every address of the dictionary is a table object of the store.\<close>

definition valid_refs :: "store \<Rightarrow> (string \<times> addr) list \<Rightarrow> bool" where
  "valid_refs h data_frames_dict = list_all (\<lambda>(source_name, a). a < length h) data_frames_dict"

text \<open>The two example tables as objects, and the dictionary that refers to them.\<close>

definition ex_store :: store where
  "ex_store = [ex_ios, ex_android]"

definition ex_refs :: "(string \<times> addr) list" where
  "ex_refs = [(''iOS'', 0), (''Android'', 1)]"

section \<open>Merging separately\<close>

text \<open>
  Two returned tables concatenated (\<^verbatim>\<open>pd.concat\<close>, as line 35 does) and sorted again
  (\<^verbatim>\<open>sort_values\<close>, as line 38 does), and the rows of the outcome.
\<close>

definition resorted_concat :: "frame \<Rightarrow> frame \<Rightarrow> py_error + frame" where
  "resorted_concat fa fb = sort_values (pd_concat [fa, fb]) [ACQ, OS]"

definition result_rows :: "py_error + frame \<Rightarrow> row list" where
  "result_rows x = (case x of Inl e \<Rightarrow> [] | Inr g \<Rightarrow> rows g)"

text \<open>Two sources whose cohorts start a week apart.\<close>

definition ex_early :: frame where
  "ex_early = \<lparr>columns = [ACQ], rows = [[ACQ \<mapsto> Date 19723]]\<rparr>"

definition ex_late :: frame where
  "ex_late = \<lparr>columns = [ACQ], rows = [[ACQ \<mapsto> Date 19730]]\<rparr>"

definition ex_staggered :: "(string \<times> frame) list" where
  "ex_staggered = [(''Android'', ex_early), (''iOS'', ex_late)]"

section \<open>Basic facts\<close>

lemma processed_dfs_Nil_iff: "processed_dfs d = [] \<longleftrightarrow> d = []"
  by (simp add: processed_dfs_def)

lemma set_unique: "set (unique xs) = set xs"
  by (simp add: unique_def)


lemma rows_concat_processed: "rows (pd_concat (processed_dfs d)) = tagged_rows d"
  by (simp add: pd_concat_def processed_dfs_def tagged_rows_def setitem_scalar_def copy_def
      map_concat comp_def case_prod_unfold)

lemma OS_in_combined: "d \<noteq> [] \<Longrightarrow> OS \<in> set (combined_columns d)"
  by (cases d) (auto simp: combined_columns_def pd_concat_def processed_dfs_def set_unique
      setitem_scalar_def copy_def)

lemma sort_values_combined:
  assumes "d \<noteq> []"
  shows "sort_values (pd_concat (processed_dfs d)) [ACQ, OS] =
    (if ACQ \<in> set (combined_columns d)
     then Inr \<lparr>columns = combined_columns d, rows = sorted_rows d\<rparr>
     else Inl (KeyError ACQ))"
  using OS_in_combined[OF assms]
  by (simp add: sort_values_def combined_columns_def sorted_rows_def rows_concat_processed [symmetric])

lemma zip_map_self: "map (\<lambda>(r, v). g r v) (zip xs (map f xs)) = map (\<lambda>r. g r (f r)) xs"
  by (induction xs) simp_all

lemma setitem_week:
  "setitem_series \<lparr>columns = cs, rows = rs\<rparr> WEEKNO
     (series_map (column \<lparr>columns = cs, rows = rs\<rparr> ACQ) m) =
   \<lparr>columns = (if WEEKNO \<in> set cs then cs else cs @ [WEEKNO]),
    rows = map (\<lambda>r. r(WEEKNO := map_option Str (map_of m (r ACQ)))) rs\<rparr>"
  by (simp add: setitem_series_def series_map_def column_def zip_map_self)

lemma final_cols_eq:
  "filter (\<lambda>col. col \<in> set (if WEEKNO \<in> set (combined_columns d) then combined_columns d
                                else combined_columns d @ [WEEKNO])) target_columns = final_cols d"
  unfolding final_cols_def by (rule filter_cong) auto

lemma final_frame_eq:
  "getitem_cols
     (setitem_series \<lparr>columns = combined_columns d, rows = sorted_rows d\<rparr> WEEKNO
       (series_map (column \<lparr>columns = combined_columns d, rows = sorted_rows d\<rparr> ACQ)
         (week_items (week_dates d))))
     (filter (\<lambda>col. col \<in> set (columns
        (setitem_series \<lparr>columns = combined_columns d, rows = sorted_rows d\<rparr> WEEKNO
          (series_map (column \<lparr>columns = combined_columns d, rows = sorted_rows d\<rparr> ACQ)
            (week_items (week_dates d)))))) target_columns)
   = final_frame d"
  unfolding setitem_week
  apply (simp only: frame.simps final_cols_eq getitem_cols_def final_frame_def map_map comp_def)
  apply (simp add: final_row_def week_number_def)
  done

lemma run_cases:
  "run_flexible_cohort_analysis d =
    (if d = [] then (Return_str ''Error: No dataframes provided.'', [])
     else if ACQ \<notin> set (combined_columns d) then (Raise (KeyError ACQ), [])
     else if \<not> orderable (unique (map (\<lambda>r. r ACQ) (sorted_rows d))) then (Raise TypeError, [])
     else (Return_frame (final_frame d), dispersion_analysis (final_frame d)))"
proof (cases "d = []")
  case True
  then show ?thesis by (simp add: run_flexible_cohort_analysis_def processed_dfs_def)
next
  case nonempty: False
  show ?thesis
  proof (cases "ACQ \<in> set (combined_columns d)")
    case False
    with nonempty show ?thesis
      by (simp add: run_flexible_cohort_analysis_def processed_dfs_Nil_iff sort_values_combined)
  next
    case has_acq: True
    have col: "column \<lparr>columns = combined_columns d, rows = sorted_rows d\<rparr> ACQ =
        map (\<lambda>r. r ACQ) (sorted_rows d)"
      by (simp add: column_def)
    show ?thesis
    proof (cases "orderable (unique (map (\<lambda>r. r ACQ) (sorted_rows d)))")
      case False
      with nonempty has_acq show ?thesis
        by (simp add: run_flexible_cohort_analysis_def processed_dfs_Nil_iff
            sort_values_combined py_sorted_def col)
    next
      case True
      have "run_flexible_cohort_analysis d =
          (let df_final = getitem_cols
             (setitem_series \<lparr>columns = combined_columns d, rows = sorted_rows d\<rparr> WEEKNO
               (series_map (column \<lparr>columns = combined_columns d, rows = sorted_rows d\<rparr> ACQ)
                 (week_items (week_dates d))))
             (filter (\<lambda>col. col \<in> set (columns
                (setitem_series \<lparr>columns = combined_columns d, rows = sorted_rows d\<rparr> WEEKNO
                  (series_map (column \<lparr>columns = combined_columns d, rows = sorted_rows d\<rparr> ACQ)
                    (week_items (week_dates d)))))) target_columns)
           in (Return_frame df_final, dispersion_analysis df_final))"
        using nonempty has_acq True
        by (simp add: run_flexible_cohort_analysis_def processed_dfs_Nil_iff
            sort_values_combined py_sorted_def col week_dates_def Let_def)
      also have "\<dots> = (Return_frame (final_frame d), dispersion_analysis (final_frame d))"
        unfolding final_frame_eq by (simp add: Let_def)
      finally show ?thesis using nonempty has_acq True by simp
    qed
  qed
qed

lemma set_combined_columns:
  "set (combined_columns d) = (\<Union>(l, df) \<in> set d. insert OS (set (columns df)))"
  by (auto simp: combined_columns_def pd_concat_def processed_dfs_def set_unique
      setitem_scalar_def copy_def split: if_splits)



lemma set_tagged_rows:
  "set (tagged_rows d) = (\<Union>(l, df) \<in> set d. (\<lambda>r. r(OS \<mapsto> Str l)) ` set (rows df))"
  unfolding tagged_rows_def set_concat set_map image_image
  by (rule arg_cong[where f = Union], rule image_cong) (simp_all add: case_prod_unfold)

lemma tagged_rows_acq:
  assumes "r \<in> set (tagged_rows d)"
  shows "\<exists>l df r0. (l, df) \<in> set d \<and> r0 \<in> set (rows df) \<and> r = r0(OS \<mapsto> Str l)"
  using assms unfolding set_tagged_rows by blast

lemma acq_cells_dates:
  assumes "acq_is_date d" and "r \<in> set (sorted_rows d)"
  shows "is_date_cell (r ACQ)"
proof -
  from assms(2) have "r \<in> set (tagged_rows d)" by (simp add: sorted_rows_def)
  then obtain l df r0 where "(l, df) \<in> set d" "r0 \<in> set (rows df)" "r = r0(OS \<mapsto> Str l)"
    using tagged_rows_acq by blast
  with assms(1) show ?thesis
    by (auto simp: acq_is_date_def list_all_iff)
qed

lemma remdups_single: "set ks \<subseteq> {k} \<Longrightarrow> remdups ks = [] \<or> remdups ks = [k]"
proof (induction ks)
  case Nil
  then show ?case by simp
next
  case (Cons a ks)
  then have a: "a = k" and sub: "set ks \<subseteq> {k}" by auto
  show ?case
  proof (cases "k \<in> set ks")
    case True
    then have "remdups ks \<noteq> []" by (metis empty_iff empty_set set_remdups)
    with Cons.IH[OF sub] a True show ?thesis by simp
  next
    case False
    with sub have "ks = []" by (cases ks) auto
    with a show ?thesis by simp
  qed
qed

lemma dates_orderable:
  assumes "\<forall>c \<in> set xs. is_date_cell c"
  shows "orderable xs"
proof -
  have "set (map kind_of (List.map_filter id xs)) \<subseteq> {KDate}"
    using assms by (auto simp: is_date_cell_def List.map_filter_def split: option.splits)
  from remdups_single[OF this] show ?thesis
    by (auto simp: orderable_def kinds_def)
qed

lemma run_returns:
  assumes "d \<noteq> []" and "ACQ \<in> set (combined_columns d)" and "acq_is_date d"
  shows "run_flexible_cohort_analysis d =
    (Return_frame (final_frame d), dispersion_analysis (final_frame d))"
proof -
  have "orderable (unique (map (\<lambda>r. r ACQ) (sorted_rows d)))"
    by (rule dates_orderable) (auto simp: set_unique dest: acq_cells_dates[OF assms(3)])
  with assms(1,2) show ?thesis by (simp add: run_cases)
qed

lemma run_Return_frameD:
  assumes "fst (run_flexible_cohort_analysis d) = Return_frame f"
  shows "f = final_frame d" and "d \<noteq> []" and "ACQ \<in> set (combined_columns d)"
  using assms by (auto simp: run_cases split: if_splits)

section \<open>Claims\<close>




text \<open>
  Claim C4. On the empty dictionary the call returns the string
  \<^verbatim>\<open>"Error: No dataframes provided."\<close>: it returns (it does not raise), what it
  returns is the error message and no table, nothing is plotted or printed, and in the
  store model no table is allocated or changed.
\<close>

theorem empty_input_error:
  "run_flexible_cohort_analysis [] = (Return_str ''Error: No dataframes provided.'', []) \<and>
   run_flexible_cohort_analysis_obj h [] = (h, Return_str_obj ''Error: No dataframes provided.'', [])"
  by (simp add: run_flexible_cohort_analysis_def run_flexible_cohort_analysis_obj_def processed_dfs_def)

lemma final_cols_present: "final_cols d = keep_present target_columns (present_columns d)"
  unfolding final_cols_def keep_present_def present_columns_def by (rule filter_cong) auto

lemma set_present_columns:
  "d \<noteq> [] \<Longrightarrow> set (present_columns d) = (\<Union>(l, df) \<in> set d. set (columns df)) \<union> {OS, WEEKNO}"
  by (cases d) (auto simp: present_columns_def set_combined_columns)

lemma dom_final_row: "dom (final_row d r) \<subseteq> set (final_cols d)"
  by (auto simp: final_row_def restrict_map_def dom_def split: if_splits)

lemma target_has_keys: "ACQ \<in> set target_columns" "WEEKNO \<in> set target_columns" "OS \<in> set target_columns"
  by (simp_all add: target_columns_def)

lemma final_cols_keys:
  assumes "d \<noteq> []" and "ACQ \<in> set (combined_columns d)"
  shows "ACQ \<in> set (final_cols d)" "WEEKNO \<in> set (final_cols d)" "OS \<in> set (final_cols d)"
  using assms OS_in_combined[OF assms(1)] target_has_keys by (simp_all add: final_cols_def)

lemma sorted_rows_OS:
  assumes "r \<in> set (sorted_rows d)"
  shows "\<exists>l. (l \<in> fst ` set d) \<and> r OS = Some (Str l)"
proof -
  from assms have "r \<in> set (tagged_rows d)" by (simp add: sorted_rows_def)
  then obtain l df r0 where "(l, df) \<in> set d" "r = r0(OS \<mapsto> Str l)"
    using tagged_rows_acq by blast
  then show ?thesis by force
qed

lemma map_fst_week_items: "map fst (week_items us) = us"
  by (simp add: week_items_def comp_def case_prod_unfold)

lemma set_week_dates: "set (week_dates d) = (\<lambda>r. r ACQ) ` set (sorted_rows d)"
  by (simp add: week_dates_def set_unique)

lemma week_number_defined:
  assumes "r \<in> set (sorted_rows d)"
  shows "week_number d (r ACQ) \<noteq> None"
proof -
  have "r ACQ \<in> set (map fst (week_items (week_dates d)))"
    using assms by (simp add: map_fst_week_items set_week_dates)
  then have "map_of (week_items (week_dates d)) (r ACQ) \<noteq> None"
    by (simp add: map_of_eq_None_iff)
  then show ?thesis by (simp add: week_number_def)
qed

lemma final_row_OS: "OS \<in> set (final_cols d) \<Longrightarrow> final_row d r OS = r OS"
  by (simp add: final_row_def)

lemma final_row_ACQ: "ACQ \<in> set (final_cols d) \<Longrightarrow> final_row d r ACQ = r ACQ"
  by (simp add: final_row_def)

lemma final_row_WEEKNO: "WEEKNO \<in> set (final_cols d) \<Longrightarrow> final_row d r WEEKNO = week_number d (r ACQ)"
  by (simp add: final_row_def)

text \<open>
  Claim C10. Whenever the call returns a table, the table has the columns
  \<^verbatim>\<open>Acquisition Week\<close>, \<^verbatim>\<open>Week Number\<close> and \<^verbatim>\<open>OS\<close>, whatever the columns of the
  input tables, and every row has a value in \<^verbatim>\<open>OS\<close> and in \<^verbatim>\<open>Week Number\<close>.
\<close>

theorem key_columns_present:
  assumes "fst (run_flexible_cohort_analysis d) = Return_frame f"
  shows "ACQ \<in> set (columns f) \<and> WEEKNO \<in> set (columns f) \<and> OS \<in> set (columns f) \<and>
         list_all (\<lambda>r. r OS \<noteq> None \<and> r WEEKNO \<noteq> None) (rows f)"
proof -
  note D = run_Return_frameD[OF assms]
  note K = final_cols_keys[OF D(2,3)]
  have "r OS \<noteq> None \<and> r WEEKNO \<noteq> None" if "r \<in> set (rows f)" for r
  proof -
    from that D(1) obtain r0 where r0: "r0 \<in> set (sorted_rows d)" "r = final_row d r0"
      by (auto simp: final_frame_def)
    from sorted_rows_OS[OF r0(1)] week_number_defined[OF r0(1)] show ?thesis
      by (auto simp: r0(2) final_row_OS[OF K(3)] final_row_WEEKNO[OF K(2)])
  qed
  then show ?thesis using K D(1) by (simp add: final_frame_def list_all_iff)
qed

text \<open>
  Claim C3, amended. Whenever the call returns a table, its columns are the labels of
  the program's list \<open>target_columns\<close> (with \<^verbatim>\<open>Payout Total (EUR)\<close> and
  \<^verbatim>\<open>Total Gross (EUR)\<close> spelled with their unit) that are columns of the combined
  table, in the order of that list; the combined table's columns are the input tables'
  columns with \<^verbatim>\<open>OS\<close> and \<^verbatim>\<open>Week Number\<close>; no other label is a column of the result
  and no row has a cell outside the result's columns.
\<close>

theorem columns_projection:
  assumes "fst (run_flexible_cohort_analysis d) = Return_frame f"
  shows "columns f = keep_present target_columns (present_columns d) \<and>
         set (present_columns d) = (\<Union>(l, df) \<in> set d. set (columns df)) \<union> {OS, WEEKNO} \<and>
         set (columns f) \<subseteq> set target_columns \<and>
         list_all (\<lambda>r. dom r \<subseteq> set (columns f)) (rows f)"
proof -
  note D = run_Return_frameD[OF assms]
  have "columns f = keep_present target_columns (present_columns d)"
    by (simp add: D(1) final_frame_def final_cols_present)
  moreover have "set (columns f) \<subseteq> set target_columns"
    by (auto simp: D(1) final_frame_def final_cols_def)
  moreover have "list_all (\<lambda>r. dom r \<subseteq> set (columns f)) (rows f)"
    using dom_final_row[of d] by (simp add: D(1) final_frame_def list_all_iff)
  ultimately show ?thesis using set_present_columns[OF D(2)] by simp
qed


lemma ex_evals:
  "combined_columns ex_dict = [ACQ, ''Week 12'', OS, ''Week 8'', ''Notes'']"
  "combined_columns ex_payout = [ACQ, ''Payout Total'', ''Payout Total ('' @ euro @ '')'', OS]"
  "combined_columns ex_no_acq = [''Week 8'', OS]"
  "combined_columns ex_partial = [''Week 8'', OS, ACQ, ''Week 12'']"
  by (simp_all add: combined_columns_def pd_concat_def processed_dfs_def setitem_scalar_def
      copy_def unique_def ex_dict_def ex_ios_def ex_android_def ex_payout_def ex_no_acq_def
      ex_partial_def ex_web_def euro_def)

lemma ex_final_cols:
  "final_cols ex_dict = [ACQ, WEEKNO, OS, ''Week 8'', ''Week 12'']"
  "final_cols ex_payout = [ACQ, WEEKNO, OS, ''Payout Total ('' @ euro @ '')'']"
  "final_cols ex_partial = [ACQ, WEEKNO, OS, ''Week 8'', ''Week 12'']"
  by (simp_all add: final_cols_def ex_evals target_columns_def weeks_of_interest_def euro_def)

lemma ex_inputs_ok:
  "ex_partial \<noteq> []" "list_ex (\<lambda>(l, df). ACQ \<in> set (columns df)) ex_partial"
  "acq_is_date ex_partial" "total_rows ex_partial = 2"
  "acq_is_date ex_payout" "acq_is_date ex_dict"
  by (simp_all add: ex_partial_def ex_web_def ex_ios_def ex_payout_def ex_dict_def ex_android_def
      acq_is_date_def is_date_cell_def total_rows_def)

lemma ex_present:
  "keep_present target_columns (present_columns ex_dict) = [ACQ, WEEKNO, OS, ''Week 8'', ''Week 12'']"
  "keep_present target_columns (present_columns ex_partial) = [ACQ, WEEKNO, OS, ''Week 8'', ''Week 12'']"
  "keep_present target_columns (present_columns ex_payout) = [ACQ, WEEKNO, OS, ''Payout Total ('' @ euro @ '')'']"
  by (simp_all add: final_cols_present[symmetric] ex_final_cols)

lemma ex_runs:
  "run_flexible_cohort_analysis ex_dict =
     (Return_frame (final_frame ex_dict), dispersion_analysis (final_frame ex_dict))"
  "run_flexible_cohort_analysis ex_payout =
     (Return_frame (final_frame ex_payout), dispersion_analysis (final_frame ex_payout))"
  "run_flexible_cohort_analysis ex_partial =
     (Return_frame (final_frame ex_partial), dispersion_analysis (final_frame ex_partial))"
proof -
  have ne: "ex_dict \<noteq> []" "ex_payout \<noteq> []"
    by (simp_all add: ex_dict_def ex_payout_def)
  have acq: "ACQ \<in> set (combined_columns ex_dict)" "ACQ \<in> set (combined_columns ex_payout)"
    "ACQ \<in> set (combined_columns ex_partial)"
    by (simp_all add: ex_evals)
  show "run_flexible_cohort_analysis ex_dict =
     (Return_frame (final_frame ex_dict), dispersion_analysis (final_frame ex_dict))"
    by (rule run_returns[OF ne(1) acq(1) ex_inputs_ok(6)])
  show "run_flexible_cohort_analysis ex_payout =
     (Return_frame (final_frame ex_payout), dispersion_analysis (final_frame ex_payout))"
    by (rule run_returns[OF ne(2) acq(2) ex_inputs_ok(5)])
  show "run_flexible_cohort_analysis ex_partial =
     (Return_frame (final_frame ex_partial), dispersion_analysis (final_frame ex_partial))"
    by (rule run_returns[OF ex_inputs_ok(1) acq(3) ex_inputs_ok(3)])
qed



theorem columns_projection_witness:
  "fst (run_flexible_cohort_analysis ex_dict) = Return_frame (final_frame ex_dict) \<and>
   columns (final_frame ex_dict) = [ACQ, WEEKNO, OS, ''Week 8'', ''Week 12''] \<and>
   ''Notes'' \<in> set (present_columns ex_dict) \<and> ''Notes'' \<notin> set (columns (final_frame ex_dict))"
proof -
  have a: "fst (run_flexible_cohort_analysis ex_dict) = Return_frame (final_frame ex_dict)"
    by (simp add: ex_runs)
  have b: "''Notes'' \<in> set (present_columns ex_dict)"
    by (simp add: present_columns_def ex_evals)
  have c: "columns (final_frame ex_dict) = [ACQ, WEEKNO, OS, ''Week 8'', ''Week 12'']"
    using columns_projection[OF a] ex_present(1) by simp
  show ?thesis using a b c by simp
qed

text \<open>
  Claim C3 as stated fails: with the allow-list as the specification spells it, a column
  \<^verbatim>\<open>Payout Total\<close> of the input would be kept and \<^verbatim>\<open>Payout Total (EUR)\<close> dropped;
  the program does the opposite.
\<close>

theorem spec_allow_list_counterexample:
  "fst (run_flexible_cohort_analysis ex_payout) = Return_frame (final_frame ex_payout) \<and>
   columns (final_frame ex_payout) = [ACQ, WEEKNO, OS, ''Payout Total ('' @ euro @ '')''] \<and>
   keep_present spec_allow_list (present_columns ex_payout) = [ACQ, WEEKNO, OS, ''Payout Total''] \<and>
   columns (final_frame ex_payout) \<noteq> keep_present spec_allow_list (present_columns ex_payout)"
  by (simp add: ex_runs final_frame_def ex_final_cols)
     (simp add: keep_present_def present_columns_def ex_evals spec_allow_list_def euro_def)

theorem key_columns_present_witness:
  "fst (run_flexible_cohort_analysis ex_partial) = Return_frame (final_frame ex_partial) \<and>
   ACQ \<in> set (columns (final_frame ex_partial)) \<and>
   WEEKNO \<in> set (columns (final_frame ex_partial)) \<and>
   OS \<in> set (columns (final_frame ex_partial)) \<and>
   list_all (\<lambda>r. r OS \<noteq> None \<and> r WEEKNO \<noteq> None) (rows (final_frame ex_partial))"
  using key_columns_present[of ex_partial "final_frame ex_partial"] ex_runs(3) by simp


lemma cell_key_dates: "cell_key (Some (Date a)) < cell_key (Some (Date b)) \<longleftrightarrow> a < b"
  by auto

lemma cell_key_strs: "cell_key (Some (Str a)) \<le> cell_key (Some (Str b)) \<longleftrightarrow> a \<le> b"
  by auto

lemma cell_key_missing_last: "cell_key (Some v) < cell_key None"
  by simp

lemma row_key_le:
  "row_key [ACQ, OS] r \<le> row_key [ACQ, OS] r' \<longleftrightarrow>
     cell_key (r ACQ) < cell_key (r' ACQ) \<or>
     cell_key (r ACQ) = cell_key (r' ACQ) \<and> cell_key (r OS) \<le> cell_key (r' OS)"
  by (auto simp: row_key_def)






lemma rows_final:
  assumes "fst (run_flexible_cohort_analysis d) = Return_frame f"
  shows "rows f = map (final_row d) (sorted_rows d)" and "columns f = final_cols d"
  using run_Return_frameD(1)[OF assms] by (simp_all add: final_frame_def)

lemma final_keys:
  assumes "fst (run_flexible_cohort_analysis d) = Return_frame f"
  shows "final_row d r ACQ = r ACQ" and "final_row d r OS = r OS"
    and "final_row d r WEEKNO = week_number d (r ACQ)"
  using final_cols_keys[OF run_Return_frameD(2,3)[OF assms]]
  by (simp_all add: final_row_def)

lemma sorted_wrt_remdups: "sorted_wrt P xs \<Longrightarrow> sorted_wrt P (remdups xs)"
  by (induction xs) auto

lemma sorted_wrt_unique: "sorted_wrt P xs \<Longrightarrow> sorted_wrt P (unique xs)"
  by (simp add: unique_def sorted_wrt_rev sorted_wrt_remdups)

lemma sorted_rows_by_date: "sorted (map (\<lambda>r. cell_key (r ACQ)) (sorted_rows d))"
proof -
  have "sorted (map (row_key [ACQ, OS]) (sorted_rows d))"
    by (simp add: sorted_rows_def)
  then have "sorted_wrt (\<lambda>r r'. row_key [ACQ, OS] r \<le> row_key [ACQ, OS] r') (sorted_rows d)"
    by (simp add: sorted_map)
  then have "sorted_wrt (\<lambda>r r'. cell_key (r ACQ) \<le> cell_key (r' ACQ)) (sorted_rows d)"
    by (rule sorted_wrt_mono_rel[rotated]) (auto simp: row_key_le)
  then show ?thesis by (simp add: sorted_map)
qed

text \<open>
  The list that line 41 hands to \<^verbatim>\<open>sorted\<close> is ascending already, the missing marker
  (if any) last: \<^verbatim>\<open>sorted\<close> returns it as it is.
\<close>

lemma unique_dates_already_sorted:
  "week_dates d = unique (map (\<lambda>r. r ACQ) (sorted_rows d))"
proof -
  have "sorted_wrt (\<lambda>a b. cell_key a \<le> cell_key b) (map (\<lambda>r. r ACQ) (sorted_rows d))"
    using sorted_rows_by_date[of d] by (simp add: sorted_map sorted_wrt_map)
  then have "sorted (map cell_key (unique (map (\<lambda>r. r ACQ) (sorted_rows d))))"
    by (simp add: sorted_map sorted_wrt_unique)
  then show ?thesis unfolding week_dates_def by (rule sort_key_id_if_sorted)
qed


lemma filter_key_final:
  assumes "fst (run_flexible_cohort_analysis d) = Return_frame f"
  shows "filter (\<lambda>r. row_key [ACQ, OS] r = k) (rows f) =
         map (final_row d) (filter (\<lambda>r. row_key [ACQ, OS] r = k) (tagged_rows d))"
proof -
  have key: "row_key [ACQ, OS] (final_row d r) = row_key [ACQ, OS] r" for r
    by (simp add: row_key_def final_keys[OF assms])
  have "filter (\<lambda>r. row_key [ACQ, OS] r = k) (rows f) =
      map (final_row d) (filter (\<lambda>r. row_key [ACQ, OS] r = k) (sorted_rows d))"
    by (simp add: rows_final[OF assms] filter_map comp_def key)
  then show ?thesis by (simp add: sorted_rows_def sort_key_stable)
qed

text \<open>
  Claim C6. Whenever the call returns a table, its rows are in ascending order of the
  key (\<^verbatim>\<open>Acquisition Week\<close>, \<^verbatim>\<open>OS\<close>): of two consecutive rows the first has the
  earlier date, or the same date and a label that is not greater in the lexicographic
  order of strings (a missing date counts as later than every date). The sort is stable:
  the rows of any one key are the rows of that key of the concatenated tagged tables, in
  the order they have there.
\<close>

theorem rows_sorted_stably:
  assumes "fst (run_flexible_cohort_analysis d) = Return_frame f"
  shows "sorted (map (row_key [ACQ, OS]) (rows f)) \<and>
         (\<forall>i. Suc i < length (rows f) \<longrightarrow>
            cell_key ((rows f ! i) ACQ) < cell_key ((rows f ! Suc i) ACQ) \<or>
            cell_key ((rows f ! i) ACQ) = cell_key ((rows f ! Suc i) ACQ) \<and>
            cell_key ((rows f ! i) OS) \<le> cell_key ((rows f ! Suc i) OS)) \<and>
         (\<forall>k. filter (\<lambda>r. row_key [ACQ, OS] r = k) (rows f) =
            map (final_row d) (filter (\<lambda>r. row_key [ACQ, OS] r = k) (tagged_rows d)))"
proof -
  have key: "row_key [ACQ, OS] (final_row d r) = row_key [ACQ, OS] r" for r
    by (simp add: row_key_def final_keys[OF assms])
  have s: "sorted (map (row_key [ACQ, OS]) (rows f))"
    by (simp add: rows_final[OF assms] comp_def key sorted_rows_def)
  have "row_key [ACQ, OS] (rows f ! i) \<le> row_key [ACQ, OS] (rows f ! Suc i)"
    if "Suc i < length (rows f)" for i
    using sorted_nth_mono[OF s, of i "Suc i"] that by simp
  then show ?thesis using s filter_key_final[OF assms] by (simp add: row_key_le)
qed

lemma insort_key_map:
  "insort_key f (g x) (map g ys) = map g (insort_key (\<lambda>x. f (g x)) x ys)"
  by (induction ys) simp_all

lemma sort_key_map: "sort_key f (map g xs) = map g (sort_key (\<lambda>x. f (g x)) xs)"
  by (induction xs) (simp_all add: insort_key_map)

lemma tagged_rows_labelled:
  "tagged_rows d = map (\<lambda>(l, r). r(OS \<mapsto> Str l)) (labelled_rows d)"
  by (simp add: tagged_rows_def labelled_rows_def map_concat comp_def case_prod_unfold)

text \<open>
  Claim C7. Whenever the call returns a table, its rows are, one for one, the input rows:
  there is an arrangement \<open>ps\<close> of the input rows with their dictionary keys such that
  the \<open>i\<close>-th row of the result has the key of \<open>ps ! i\<close> in \<^verbatim>\<open>OS\<close>, whatever the
  input row had there, and the cells of that input row in every other column kept
  (\<^verbatim>\<open>Week Number\<close> apart).
\<close>

theorem os_is_source_label:
  assumes "fst (run_flexible_cohort_analysis d) = Return_frame f"
  shows "\<exists>ps. mset ps = mset (labelled_rows d) \<and> length ps = length (rows f) \<and>
           (\<forall>i < length ps.
              (rows f ! i) OS = Some (Str (fst (ps ! i))) \<and>
              (\<forall>col \<in> set (columns f) - {OS, WEEKNO}. (rows f ! i) col = snd (ps ! i) col))"
proof -
  define tag :: "string \<times> row \<Rightarrow> row" where "tag = (\<lambda>(l, r). r(OS \<mapsto> Str l))"
  define ps where "ps = sort_key (\<lambda>p. row_key [ACQ, OS] (tag p)) (labelled_rows d)"
  have sr: "sorted_rows d = map tag ps"
    by (simp add: sorted_rows_def tagged_rows_labelled ps_def tag_def sort_key_map)
  note R = rows_final[OF assms] and K = final_keys[OF assms]
  have "mset ps = mset (labelled_rows d)" by (simp add: ps_def)
  moreover have "length ps = length (rows f)" by (simp add: R(1) sr)
  moreover have "(rows f ! i) OS = Some (Str (fst (ps ! i)))" if "i < length ps" for i
    using that by (simp add: R(1) sr K(2) tag_def case_prod_unfold)
  moreover have "(rows f ! i) col = snd (ps ! i) col"
    if "i < length ps" "col \<in> set (columns f) - {OS, WEEKNO}" for i col
    using that by (simp add: R sr final_row_def tag_def case_prod_unfold)
  ultimately show ?thesis by blast
qed


lemma ex_sorted_cells:
  "map (\<lambda>r. (r ACQ, r OS, r ''Week 8'', r ''Week 12'')) (sorted_rows ex_dict) =
     [(Some (Date 19723), Some (Str ''Android''), Some (Num 90), None),
      (Some (Date 19723), Some (Str ''iOS''), None, Some (Num 150)),
      (Some (Date 19730), Some (Str ''Android''), Some (Num 100), None)]"
  by (simp add: sorted_rows_def tagged_rows_def ex_dict_def ex_ios_def ex_android_def row_key_def)

lemma ex_week_dates: "week_dates ex_dict = [Some (Date 19723), Some (Date 19730)]"
proof -
  have "map (\<lambda>r. r ACQ) (sorted_rows ex_dict) = map fst (map (\<lambda>r. (r ACQ, r OS, r ''Week 8'', r ''Week 12'')) (sorted_rows ex_dict))"
    by (simp add: comp_def)
  then show ?thesis
    unfolding unique_dates_already_sorted ex_sorted_cells by (simp add: unique_def)
qed

lemma ex_week_number:
  "week_number ex_dict (Some (Date 19723)) = Some (Str ''Week 1'')"
  "week_number ex_dict (Some (Date 19730)) = Some (Str ''Week 2'')"
  by (simp_all add: week_number_def ex_week_dates week_items_def str_nat.simps digit_char_def)

lemma ex_final_cells:
  "map (\<lambda>r. (r ACQ, r OS, r WEEKNO, r ''Week 8'', r ''Week 12'', r ''Notes'')) (rows (final_frame ex_dict)) =
     [(Some (Date 19723), Some (Str ''Android''), Some (Str ''Week 1''), Some (Num 90), None, None),
      (Some (Date 19723), Some (Str ''iOS''), Some (Str ''Week 1''), None, Some (Num 150), None),
      (Some (Date 19730), Some (Str ''Android''), Some (Str ''Week 2''), Some (Num 100), None, None)]"
proof -
  have "map (\<lambda>r. (r ACQ, r OS, r WEEKNO, r ''Week 8'', r ''Week 12'', r ''Notes'')) (rows (final_frame ex_dict)) =
      map (\<lambda>(a, os, w8, w12). (a, os, week_number ex_dict a, w8, w12, None))
        (map (\<lambda>r. (r ACQ, r OS, r ''Week 8'', r ''Week 12'')) (sorted_rows ex_dict))"
    by (simp add: final_frame_def final_row_def ex_final_cols comp_def)
  then show ?thesis unfolding ex_sorted_cells by (simp add: ex_week_number)
qed


lemma ex_run_fst:
  "fst (run_flexible_cohort_analysis ex_dict) = Return_frame (final_frame ex_dict)"
  by (simp add: ex_runs)


lemma ex_final_keys:
  "map (\<lambda>r. (r ACQ, r OS)) (rows (final_frame ex_dict)) =
     [(Some (Date 19723), Some (Str ''Android'')),
      (Some (Date 19723), Some (Str ''iOS'')),
      (Some (Date 19730), Some (Str ''Android''))]"
proof -
  have "map (\<lambda>r. (r ACQ, r OS)) (rows (final_frame ex_dict)) =
      map (\<lambda>(a, os, rest). (a, os))
        (map (\<lambda>r. (r ACQ, r OS, r WEEKNO, r ''Week 8'', r ''Week 12'', r ''Notes''))
          (rows (final_frame ex_dict)))"
    by (simp add: comp_def)
  then show ?thesis unfolding ex_final_cells by simp
qed


theorem rows_sorted_stably_witness:
  "fst (run_flexible_cohort_analysis ex_dict) = Return_frame (final_frame ex_dict) \<and>
   map (\<lambda>r. (r ACQ, r OS)) (rows (final_frame ex_dict)) =
     [(Some (Date 19723), Some (Str ''Android'')),
      (Some (Date 19723), Some (Str ''iOS'')),
      (Some (Date 19730), Some (Str ''Android''))] \<and>
   sorted (map (row_key [ACQ, OS]) (rows (final_frame ex_dict)))"
  using rows_sorted_stably[OF ex_run_fst] ex_run_fst ex_final_keys by simp

lemma ex_labelled:
  "map (\<lambda>(l, r). (l, r OS)) (labelled_rows ex_dict) =
     [(''iOS'', None), (''Android'', Some (Str ''stale'')), (''Android'', Some (Str ''stale''))]"
  by (simp add: labelled_rows_def ex_dict_def ex_ios_def ex_android_def)

theorem os_is_source_label_witness:
  "fst (run_flexible_cohort_analysis ex_dict) = Return_frame (final_frame ex_dict) \<and>
   map (\<lambda>(l, r). (l, r OS)) (labelled_rows ex_dict) =
     [(''iOS'', None), (''Android'', Some (Str ''stale'')), (''Android'', Some (Str ''stale''))] \<and>
   map (\<lambda>r. r OS) (rows (final_frame ex_dict)) =
     [Some (Str ''Android''), Some (Str ''iOS''), Some (Str ''Android'')] \<and>
   (\<exists>ps. mset ps = mset (labelled_rows ex_dict) \<and>
      length ps = length (rows (final_frame ex_dict)) \<and>
      (\<forall>i < length ps.
         (rows (final_frame ex_dict) ! i) OS = Some (Str (fst (ps ! i))) \<and>
         (\<forall>col \<in> set (columns (final_frame ex_dict)) - {OS, WEEKNO}.
            (rows (final_frame ex_dict) ! i) col = snd (ps ! i) col)))"
proof -
  have "map (\<lambda>r. r OS) (rows (final_frame ex_dict)) =
      map snd (map (\<lambda>r. (r ACQ, r OS)) (rows (final_frame ex_dict)))"
    by (simp add: comp_def)
  then have "map (\<lambda>r. r OS) (rows (final_frame ex_dict)) =
      [Some (Str ''Android''), Some (Str ''iOS''), Some (Str ''Android'')]"
    unfolding ex_final_keys by simp
  with os_is_source_label[OF ex_run_fst] ex_run_fst ex_labelled show ?thesis by blast
qed

section \<open>The store\<close>

lemma tag_step:
  "setitem_scalar_obj (fst (copy_obj h a)) (snd (copy_obj h a)) col v =
     h @ [setitem_scalar (copy (h ! a)) col v]"
  by (simp add: setitem_scalar_obj_def copy_obj_def alloc_def)

lemma tag_loop_Cons:
  "tag_loop h ((l, a) # rest) acc =
     tag_loop (h @ [setitem_scalar (copy (h ! a)) OS (Str l)]) rest (acc @ [length h])"
  using tag_step[of h a OS "Str l"]
  by (simp add: case_prod_unfold Let_def) (simp add: copy_obj_def alloc_def)

lemma tag_loop_prefix:
  "tag_loop h dict acc = (h1, processed) \<Longrightarrow> \<exists>xs. h1 = h @ xs"
proof (induction dict arbitrary: h acc)
  case Nil
  then show ?case by simp
next
  case (Cons p dict)
  obtain l a where p: "p = (l, a)" by (cases p)
  let ?x = "setitem_scalar (copy (h ! a)) OS (Str l)"
  from Cons.prems have "tag_loop (h @ [?x]) dict (acc @ [length h]) = (h1, processed)"
    by (simp add: p tag_loop_Cons del: tag_loop.simps)
  from Cons.IH[OF this] obtain xs where "h1 = (h @ [?x]) @ xs" by blast
  then have "h1 = h @ (?x # xs)" by simp
  then show ?case by blast
qed

lemma run_obj_extends:
  assumes "run_flexible_cohort_analysis_obj h data_frames_dict = (h', res, ev)"
  shows "\<exists>ys. h' = h @ ys"
proof -
  obtain h1 processed where tl: "tag_loop h data_frames_dict [] = (h1, processed)"
    by (cases "tag_loop h data_frames_dict []")
  from tag_loop_prefix[OF tl] obtain xs where h1: "h1 = h @ xs" by blast
  have e1: "\<exists>ys. (h @ xs) @ [x] = h @ ys" for x by simp
  have e2: "\<exists>ys. ((h @ xs) @ [x]) @ [y] = h @ ys" for x y by simp
  have e3: "\<exists>ys. ((((h @ xs) @ [x]) @ [y])[length ((h @ xs) @ [x]) := z]) @ [w] = h @ ys"
    for x y z w
    by (simp add: list_update_append)
  show ?thesis
  proof (cases "processed = []")
    case True
    with assms tl h1 show ?thesis
      by (auto simp: run_flexible_cohort_analysis_obj_def)
  next
    case ne: False
    let ?c = "pd_concat (map (\<lambda>a. h1 ! a) processed)"
    show ?thesis
    proof (cases "sort_values ((h1 @ [?c]) ! length h1) [ACQ, OS]")
      case (Inl e)
      with assms tl ne have "h' = h1 @ [?c]"
        by (auto simp: run_flexible_cohort_analysis_obj_def alloc_def)
      then show ?thesis using e1 h1 by simp
    next
      case (Inr s)
      show ?thesis
      proof (cases "py_sorted (unique (column (((h1 @ [?c]) @ [s]) ! length (h1 @ [?c])) ACQ))")
        case (Inl e)
        with assms tl ne Inr have "h' = (h1 @ [?c]) @ [s]"
          by (auto simp: run_flexible_cohort_analysis_obj_def alloc_def)
        then show ?thesis using e2 h1 by simp
      next
        case us: (Inr unique_dates)
        with assms tl ne Inr have "\<exists>z w. h' = (((h1 @ [?c]) @ [s])[length (h1 @ [?c]) := z]) @ [w]"
          by (auto simp: run_flexible_cohort_analysis_obj_def alloc_def Let_def
              setitem_series_obj_def)
        then show ?thesis using e3 h1 by auto
      qed
    qed
  qed
qed

text \<open>
  Claim C9. However a call ends (a table, the error string or an exception), every table
  object that existed before the call is in the store after it with the columns, rows and
  cells it had: the tagging of line 27 and the assignment of line 44 change objects that
  the call itself created (the copy of line 23, the sorted table of line 38), never a
  caller's table. This holds for every store and dictionary, also one in which two keys
  share a table.
\<close>

theorem caller_tables_unchanged:
  assumes "run_flexible_cohort_analysis_obj h data_frames_dict = (h', res, ev)"
    and "a < length h"
  shows "a < length h' \<and> h' ! a = h ! a"
proof -
  from run_obj_extends[OF assms(1)] obtain ys where "h' = h @ ys" by blast
  with assms(2) show ?thesis by (simp add: nth_append)
qed

lemma map_nth_fresh: "map (\<lambda>a. (h @ ps) ! a) [length h..<length h + length ps] = ps"
  by (rule nth_equalityI) (simp_all add: nth_append)

lemma deref_append: "valid_refs h dict \<Longrightarrow> deref (h @ xs) dict = deref h dict"
  by (induction dict) (auto simp: valid_refs_def deref_def nth_append)

lemma valid_refs_append: "valid_refs h dict \<Longrightarrow> valid_refs (h @ xs) dict"
  by (induction dict) (auto simp: valid_refs_def)

lemma tag_loop_closed:
  "valid_refs h dict \<Longrightarrow>
   tag_loop h dict acc =
     (h @ processed_dfs (deref h dict), acc @ [length h..<length h + length dict])"
proof (induction dict arbitrary: h acc)
  case Nil
  then show ?case by (simp add: processed_dfs_def deref_def)
next
  case (Cons p dict)
  obtain l a where p: "p = (l, a)" by (cases p)
  let ?x = "setitem_scalar (copy (h ! a)) OS (Str l)"
  from Cons.prems have v: "valid_refs h dict" and a: "a < length h"
    by (simp_all add: valid_refs_def p)
  have "tag_loop h (p # dict) acc = tag_loop (h @ [?x]) dict (acc @ [length h])"
    by (simp add: p tag_loop_Cons del: tag_loop.simps)
  also have "\<dots> = ((h @ [?x]) @ processed_dfs (deref (h @ [?x]) dict),
      (acc @ [length h]) @ [length (h @ [?x])..<length (h @ [?x]) + length dict])"
    by (rule Cons.IH[OF valid_refs_append[OF v]])
  also have "\<dots> = (h @ processed_dfs (deref h (p # dict)),
      acc @ [length h..<length h + length (p # dict)])"
  proof -
    have d: "deref (h @ [?x]) dict = deref h dict" by (rule deref_append[OF v])
    have c: "processed_dfs (deref h (p # dict)) = ?x # processed_dfs (deref h dict)"
      by (simp add: p processed_dfs_def deref_def)
    have u: "[length h..<length h + length (p # dict)] =
        length h # [Suc (length h)..<Suc (length h) + length dict]"
      by (simp add: upt_rec)
    show ?thesis unfolding d c u by simp
  qed
  finally show ?case .
qed

text \<open>
  On a dictionary of valid addresses the store model returns what the value model
  returns on the tables the addresses hold, with the same events: the claims about the
  returned table, proved on the value model, hold of the table object returned.
\<close>

lemma run_obj_agrees:
  assumes "valid_refs h dict"
    and "run_flexible_cohort_analysis_obj h dict = (h', res, ev)"
  shows "(result_in h' res, ev) = run_flexible_cohort_analysis (deref h dict)"
proof -
  let ?d = "deref h dict"
  let ?h1 = "h @ processed_dfs ?d"
  let ?c = "pd_concat (processed_dfs ?d)"
  have len: "length (processed_dfs ?d) = length dict"
    by (simp add: processed_dfs_def deref_def)
  have tl: "tag_loop h dict [] = (?h1, [length h..<length h + length dict])"
    using tag_loop_closed[OF assms(1), of "[]"] by simp
  have m: "map (\<lambda>a. ?h1 ! a) [length h..<length h + length dict] = processed_dfs ?d"
    using map_nth_fresh[of h "processed_dfs ?d"] by (simp add: len)
  show ?thesis
  proof (cases "dict = []")
    case True
    with assms(2) show ?thesis
      by (auto simp: run_flexible_cohort_analysis_obj_def run_flexible_cohort_analysis_def
          deref_def processed_dfs_def)
  next
    case ne: False
    then have ne': "processed_dfs ?d \<noteq> []" "[length h..<length h + length dict] \<noteq> []"
      using len by auto
    show ?thesis
    proof (cases "sort_values ?c [ACQ, OS]")
      case (Inl e)
      with assms(2) ne' show ?thesis
        by (auto simp: run_flexible_cohort_analysis_obj_def run_flexible_cohort_analysis_def
            tl m alloc_def)
    next
      case s: (Inr df_sorted)
      show ?thesis
      proof (cases "py_sorted (unique (column df_sorted ACQ))")
        case (Inl e)
        with assms(2) ne' s show ?thesis
          by (auto simp: run_flexible_cohort_analysis_obj_def run_flexible_cohort_analysis_def
              tl m alloc_def nth_append)
      next
        case (Inr unique_dates)
        with assms(2) ne' s show ?thesis
          by (auto simp: run_flexible_cohort_analysis_obj_def run_flexible_cohort_analysis_def
              tl m alloc_def nth_append Let_def setitem_series_obj_def)
      qed
    qed
  qed
qed


lemma ex_store_facts:
  "valid_refs ex_store ex_refs" "deref ex_store ex_refs = ex_dict"
  by (simp_all add: valid_refs_def deref_def ex_store_def ex_refs_def ex_dict_def)

theorem caller_tables_unchanged_witness:
  "(1::nat) < length ex_store \<and>
   deref ex_store ex_refs = ex_dict \<and>
   (case run_flexible_cohort_analysis_obj ex_store ex_refs of
      (h', res, ev) \<Rightarrow> result_in h' res) = Return_frame (final_frame ex_dict) \<and>
   (case run_flexible_cohort_analysis_obj ex_store ex_refs of
      (h', res, ev) \<Rightarrow> h' ! 1) = ex_store ! 1"
proof -
  obtain h' res ev where r: "run_flexible_cohort_analysis_obj ex_store ex_refs = (h', res, ev)"
    by (cases "run_flexible_cohort_analysis_obj ex_store ex_refs")
  have l: "(1::nat) < length ex_store" by (simp add: ex_store_def)
  from caller_tables_unchanged[OF r l] have "h' ! 1 = ex_store ! 1" by simp
  moreover from run_obj_agrees[OF ex_store_facts(1) r]
  have "result_in h' res = Return_frame (final_frame ex_dict)"
    by (simp add: ex_store_facts(2) ex_runs)
  ultimately show ?thesis using l r ex_store_facts(2) by simp
qed

section \<open>Merging at once and separately\<close>

lemma sort_key_append_sorted:
  "sort_key f (sort_key f xs @ sort_key f ys) = sort_key f (xs @ ys)"
proof (rule properties_for_sort_key)
  show "mset (sort_key f (xs @ ys)) = mset (sort_key f xs @ sort_key f ys)" by simp
  show "sorted (map f (sort_key f (xs @ ys)))" by simp
  fix k
  have st: "filter (\<lambda>x. f k = f x) (sort_key f zs) = filter (\<lambda>x. f k = f x) zs" for zs
    using sort_key_stable[of f "f k" zs] by (simp add: eq_commute[of "f k"])
  show "filter (\<lambda>x. f k = f x) (sort_key f (xs @ ys)) =
      filter (\<lambda>x. f k = f x) (sort_key f xs @ sort_key f ys)"
    by (simp add: st)
qed

lemma tagged_rows_single: "tagged_rows [(l, df)] = map (\<lambda>r. r(OS \<mapsto> Str l)) (rows df)"
  by (simp add: tagged_rows_def)

lemma tagged_rows_pair: "tagged_rows [(A, a), (B, b)] = tagged_rows [(A, a)] @ tagged_rows [(B, b)]"
  by (simp add: tagged_rows_def)

lemma final_cols_pair:
  "set (final_cols [(A, a), (B, b)]) = set (final_cols [(A, a)]) \<union> set (final_cols [(B, b)])"
  by (auto simp: final_cols_def set_combined_columns)

lemma strip_final_row:
  assumes "dom r \<subseteq> set (combined_columns d)"
    and "set (combined_columns d) \<subseteq> set (combined_columns d')"
  shows "(final_row d r)(WEEKNO := None) = (final_row d' r)(WEEKNO := None)"
proof
  fix col
  show "((final_row d r)(WEEKNO := None)) col = ((final_row d' r)(WEEKNO := None)) col"
  proof (cases "r col")
    case None
    then show ?thesis by (simp add: final_row_def restrict_map_def)
  next
    case (Some v)
    then have "col \<in> set (combined_columns d)" using assms(1) by auto
    then have "col \<in> set (final_cols d) \<longleftrightarrow> col \<in> set (final_cols d')"
      using assms(2) by (auto simp: final_cols_def)
    then show ?thesis by (simp add: final_row_def restrict_map_def)
  qed
qed

lemma dom_tagged_single:
  assumes "wf_frame df" and "r \<in> set (tagged_rows [(l, df)])"
  shows "dom r \<subseteq> set (combined_columns [(l, df)])"
proof
  fix col assume "col \<in> dom r"
  then obtain v where v: "r col = Some v" by auto
  from assms(2) obtain r0 where r0: "r0 \<in> set (rows df)" "r = r0(OS \<mapsto> Str l)"
    by (auto simp: tagged_rows_single)
  from assms(1) r0(1) have d: "dom r0 \<subseteq> set (columns df)"
    by (simp add: wf_frame_def list_all_iff)
  show "col \<in> set (combined_columns [(l, df)])"
  proof (cases "col = OS")
    case True
    then show ?thesis by (simp add: set_combined_columns)
  next
    case False
    with v r0(2) have "r0 col = Some v" by simp
    with d have "col \<in> set (columns df)" by auto
    then show ?thesis by (simp add: set_combined_columns)
  qed
qed


lemma combined_columns_pair:
  "set (combined_columns [(A, a)]) \<subseteq> set (combined_columns [(A, a), (B, b)])"
  "set (combined_columns [(B, b)]) \<subseteq> set (combined_columns [(A, a), (B, b)])"
  by (auto simp: set_combined_columns)

lemma row_key_strip: "row_key [ACQ, OS] (r(WEEKNO := None)) = row_key [ACQ, OS] r"
  by (simp add: row_key_def)

text \<open>
  Claim C8, amended. For well-formed tables \<open>a\<close> and \<open>b\<close> under different labels, when
  the merge of both and the merges of each alone return tables: concatenating the two
  separate results and sorting again succeeds and gives a table with the same set of
  columns as the merge of both at once and, row by row in the same order, the same cells
  in every column but \<^verbatim>\<open>Week Number\<close>. (\<^verbatim>\<open>Week Number\<close> ranks a date among the
  dates of the one call, so the separate merges each count from \<^verbatim>\<open>Week 1\<close>.)
\<close>

theorem merge_at_once_or_separately:
  assumes "A \<noteq> B" and "wf_frame a" and "wf_frame b"
    and "fst (run_flexible_cohort_analysis [(A, a), (B, b)]) = Return_frame f"
    and "fst (run_flexible_cohort_analysis [(A, a)]) = Return_frame fa"
    and "fst (run_flexible_cohort_analysis [(B, b)]) = Return_frame fb"
  shows "\<exists>g. resorted_concat fa fb = Inr g \<and>
           set (columns g) = set (columns f) \<and>
           map (\<lambda>r. r(WEEKNO := None)) (rows g) = map (\<lambda>r. r(WEEKNO := None)) (rows f)"
proof -
  let ?dA = "[(A, a)]" and ?dB = "[(B, b)]" and ?d = "[(A, a), (B, b)]"
  let ?k = "row_key [ACQ, OS]"
  let ?S = "\<lambda>r::row. r(WEEKNO := None)"
  let ?ta = "tagged_rows ?dA" and ?tb = "tagged_rows ?dB"
  note RA = rows_final[OF assms(5)] and RB = rows_final[OF assms(6)] and R = rows_final[OF assms(4)]
  note KA = final_keys[OF assms(5)] and KB = final_keys[OF assms(6)] and K = final_keys[OF assms(4)]
  have keysA: "ACQ \<in> set (columns fa)" "OS \<in> set (columns fa)"
    using final_cols_keys[OF run_Return_frameD(2,3)[OF assms(5)]] by (simp_all add: RA(2))
  define g where "g = (pd_concat [fa, fb])\<lparr>rows := sort_key ?k (rows (pd_concat [fa, fb]))\<rparr>"
  have rc: "resorted_concat fa fb = Inr g"
    using keysA by (simp add: resorted_concat_def sort_values_def g_def pd_concat_def set_unique)
  have cols: "set (columns g) = set (columns f)"
    by (simp add: g_def pd_concat_def set_unique RA(2) RB(2) R(2) final_cols_pair)
  have kS: "?k (?S r) = ?k r" for r by (rule row_key_strip)
  have kFA: "?k (final_row ?dA r) = ?k r" for r by (simp add: row_key_def KA)
  have kFB: "?k (final_row ?dB r) = ?k r" for r by (simp add: row_key_def KB)
  have kF: "?k (final_row ?d r) = ?k r" for r by (simp add: row_key_def K)
  let ?G = "\<lambda>r. ?S (final_row ?d r)"
  have kG: "?k (?G r) = ?k r" for r by (simp add: kS kF)
  have sA: "?S (final_row ?dA r) = ?G r" if "r \<in> set ?ta" for r
    by (rule strip_final_row[OF dom_tagged_single[OF assms(2) that] combined_columns_pair(1)])
  have sB: "?S (final_row ?dB r) = ?G r" if "r \<in> set ?tb" for r
    by (rule strip_final_row[OF dom_tagged_single[OF assms(3) that] combined_columns_pair(2)])
  have mA: "map ?S (rows fa) = map ?G (sort_key ?k ?ta)"
    by (simp add: RA(1) sorted_rows_def sA)
  have mB: "map ?S (rows fb) = map ?G (sort_key ?k ?tb)"
    by (simp add: RB(1) sorted_rows_def sB)
  have eS: "(\<lambda>x. ?k (?S x)) = ?k" by (simp add: kS)
  have eG: "(\<lambda>x. ?k (?G x)) = ?k" using kG by auto
  have cS: "sort_key ?k (map ?S zs) = map ?S (sort_key ?k zs)" for zs
    using sort_key_map[of ?k ?S zs] by (simp only: eS)
  have cG: "sort_key ?k (map ?G zs) = map ?G (sort_key ?k zs)" for zs
    using sort_key_map[of ?k ?G zs] by (simp only: eG)
  have "map ?S (rows g) = map ?S (sort_key ?k (rows fa @ rows fb))"
    by (simp add: g_def pd_concat_def)
  also have "\<dots> = sort_key ?k (map ?S (rows fa @ rows fb))"
    by (simp only: cS)
  also have "\<dots> = sort_key ?k (map ?G (sort_key ?k ?ta @ sort_key ?k ?tb))"
    by (simp only: map_append mA mB)
  also have "\<dots> = map ?G (sort_key ?k (sort_key ?k ?ta @ sort_key ?k ?tb))"
    by (simp only: cG)
  also have "\<dots> = map ?G (sort_key ?k (?ta @ ?tb))"
    by (simp only: sort_key_append_sorted)
  also have "\<dots> = map ?S (rows f)"
    by (simp add: R(1) sorted_rows_def tagged_rows_pair)
  finally show ?thesis using rc cols by blast
qed


lemma ex_staggered_runs:
  "fst (run_flexible_cohort_analysis ex_staggered) = Return_frame (final_frame ex_staggered)"
  "fst (run_flexible_cohort_analysis [(''Android'', ex_early)]) =
     Return_frame (final_frame [(''Android'', ex_early)])"
  "fst (run_flexible_cohort_analysis [(''iOS'', ex_late)]) =
     Return_frame (final_frame [(''iOS'', ex_late)])"
proof -
  have d: "acq_is_date ex_staggered" "acq_is_date [(''Android'', ex_early)]"
    "acq_is_date [(''iOS'', ex_late)]"
    by (simp_all add: acq_is_date_def is_date_cell_def ex_staggered_def ex_early_def ex_late_def)
  have c: "ACQ \<in> set (combined_columns ex_staggered)"
    "ACQ \<in> set (combined_columns [(''Android'', ex_early)])"
    "ACQ \<in> set (combined_columns [(''iOS'', ex_late)])"
    by (simp_all add: set_combined_columns ex_staggered_def ex_early_def ex_late_def)
  have n: "ex_staggered \<noteq> []" by (simp add: ex_staggered_def)
  show "fst (run_flexible_cohort_analysis ex_staggered) = Return_frame (final_frame ex_staggered)"
    by (simp add: run_returns[OF n c(1) d(1)])
  show "fst (run_flexible_cohort_analysis [(''Android'', ex_early)]) =
     Return_frame (final_frame [(''Android'', ex_early)])"
    by (simp add: run_returns[OF _ c(2) d(2)])
  show "fst (run_flexible_cohort_analysis [(''iOS'', ex_late)]) =
     Return_frame (final_frame [(''iOS'', ex_late)])"
    by (simp add: run_returns[OF _ c(3) d(3)])
qed

lemma ex_staggered_cols:
  "final_cols ex_staggered = [ACQ, WEEKNO, OS]"
  "final_cols [(''Android'', ex_early)] = [ACQ, WEEKNO, OS]"
  "final_cols [(''iOS'', ex_late)] = [ACQ, WEEKNO, OS]"
proof -
  have c: "combined_columns ex_staggered = [ACQ, OS]"
    "combined_columns [(''Android'', ex_early)] = [ACQ, OS]"
    "combined_columns [(''iOS'', ex_late)] = [ACQ, OS]"
    by (simp_all add: combined_columns_def pd_concat_def processed_dfs_def setitem_scalar_def
        copy_def unique_def ex_staggered_def ex_early_def ex_late_def)
  show "final_cols ex_staggered = [ACQ, WEEKNO, OS]"
    "final_cols [(''Android'', ex_early)] = [ACQ, WEEKNO, OS]"
    "final_cols [(''iOS'', ex_late)] = [ACQ, WEEKNO, OS]"
    by (simp_all add: final_cols_def c target_columns_def weeks_of_interest_def euro_def)
qed

lemma ex_staggered_sorted:
  "map (\<lambda>r. (r ACQ, r OS)) (sorted_rows ex_staggered) =
     [(Some (Date 19723), Some (Str ''Android'')), (Some (Date 19730), Some (Str ''iOS''))]"
  "map (\<lambda>r. (r ACQ, r OS)) (sorted_rows [(''Android'', ex_early)]) =
     [(Some (Date 19723), Some (Str ''Android''))]"
  "map (\<lambda>r. (r ACQ, r OS)) (sorted_rows [(''iOS'', ex_late)]) =
     [(Some (Date 19730), Some (Str ''iOS''))]"
  by (simp_all add: sorted_rows_def tagged_rows_def row_key_def ex_staggered_def ex_early_def
      ex_late_def)

lemma acq_of_keys: "map (\<lambda>r. r ACQ) rs = map fst (map (\<lambda>r. (r ACQ, r OS)) rs)"
  by (simp add: comp_def)

lemma ex_staggered_dates:
  "week_dates ex_staggered = [Some (Date 19723), Some (Date 19730)]"
  "week_dates [(''Android'', ex_early)] = [Some (Date 19723)]"
  "week_dates [(''iOS'', ex_late)] = [Some (Date 19730)]"
  unfolding unique_dates_already_sorted acq_of_keys ex_staggered_sorted
  by (simp_all add: unique_def)

lemma ex_staggered_weeks:
  "week_number ex_staggered (Some (Date 19723)) = Some (Str ''Week 1'')"
  "week_number ex_staggered (Some (Date 19730)) = Some (Str ''Week 2'')"
  "week_number [(''Android'', ex_early)] (Some (Date 19723)) = Some (Str ''Week 1'')"
  "week_number [(''iOS'', ex_late)] (Some (Date 19730)) = Some (Str ''Week 1'')"
  by (simp_all add: week_number_def ex_staggered_dates week_items_def str_nat.simps
      digit_char_def)

lemma final_rows_keys:
  "map (\<lambda>r. (r ACQ, r OS, r WEEKNO)) (rows (final_frame d)) =
     (if ACQ \<in> set (final_cols d) \<and> OS \<in> set (final_cols d) \<and> WEEKNO \<in> set (final_cols d)
      then map (\<lambda>(a, os). (a, os, week_number d a)) (map (\<lambda>r. (r ACQ, r OS)) (sorted_rows d))
      else map (\<lambda>r. (r ACQ, r OS, r WEEKNO)) (rows (final_frame d)))"
  by (simp add: final_frame_def final_row_def comp_def)

lemma ex_staggered_at_once:
  "map (\<lambda>r. (r ACQ, r OS, r WEEKNO)) (rows (final_frame ex_staggered)) =
     [(Some (Date 19723), Some (Str ''Android''), Some (Str ''Week 1'')),
      (Some (Date 19730), Some (Str ''iOS''), Some (Str ''Week 2''))]"
  by (subst final_rows_keys) (simp add: ex_staggered_cols ex_staggered_sorted ex_staggered_weeks)

lemma ex_staggered_each:
  "map (\<lambda>r. (r ACQ, r OS, r WEEKNO)) (rows (final_frame [(''Android'', ex_early)])) =
     [(Some (Date 19723), Some (Str ''Android''), Some (Str ''Week 1''))]"
  "map (\<lambda>r. (r ACQ, r OS, r WEEKNO)) (rows (final_frame [(''iOS'', ex_late)])) =
     [(Some (Date 19730), Some (Str ''iOS''), Some (Str ''Week 1''))]"
  by (subst final_rows_keys, simp add: ex_staggered_cols ex_staggered_sorted ex_staggered_weeks)+


lemma resorted_rows:
  assumes "ACQ \<in> set (columns fa)" and "OS \<in> set (columns fa)"
  shows "result_rows (resorted_concat fa fb) = sort_key (row_key [ACQ, OS]) (rows fa @ rows fb)"
  using assms
  by (simp add: result_rows_def resorted_concat_def sort_values_def pd_concat_def set_unique)

lemma row_key_of_keys:
  "map (row_key [ACQ, OS]) rs =
     map (\<lambda>(a, os, w). [cell_key a, cell_key os]) (map (\<lambda>r. (r ACQ, r OS, r WEEKNO)) rs)"
  by (simp add: row_key_def comp_def)

lemma ex_staggered_separately:
  "map (\<lambda>r. (r ACQ, r OS, r WEEKNO))
     (result_rows (resorted_concat (final_frame [(''Android'', ex_early)])
                                   (final_frame [(''iOS'', ex_late)]))) =
     [(Some (Date 19723), Some (Str ''Android''), Some (Str ''Week 1'')),
      (Some (Date 19730), Some (Str ''iOS''), Some (Str ''Week 1''))]"
proof -
  let ?fa = "final_frame [(''Android'', ex_early)]" and ?fb = "final_frame [(''iOS'', ex_late)]"
  have c: "ACQ \<in> set (columns ?fa)" "OS \<in> set (columns ?fa)"
    by (simp_all add: final_frame_def ex_staggered_cols)
  have "sorted (map (row_key [ACQ, OS]) (rows ?fa @ rows ?fb))"
    unfolding row_key_of_keys map_append ex_staggered_each by simp
  then have "sort_key (row_key [ACQ, OS]) (rows ?fa @ rows ?fb) = rows ?fa @ rows ?fb"
    by (rule sort_key_id_if_sorted)
  then show ?thesis
    unfolding resorted_rows[OF c] by (simp only: map_append ex_staggered_each append.simps)
qed

lemma weekno_of_keys:
  "map (\<lambda>r. r WEEKNO) rs = map (\<lambda>(a, os, w). w) (map (\<lambda>r. (r ACQ, r OS, r WEEKNO)) rs)"
  by (simp add: comp_def)

text \<open>
  Claim C8 as stated fails: with cohorts that start a week apart, the merge at once numbers
  the later date \<^verbatim>\<open>Week 2\<close>, the separate merge of its source numbers it
  \<^verbatim>\<open>Week 1\<close>; the two tables differ as collections of rows, in any order.
\<close>

theorem separate_merge_counterexample:
  "fst (run_flexible_cohort_analysis ex_staggered) = Return_frame (final_frame ex_staggered) \<and>
   fst (run_flexible_cohort_analysis [(''Android'', ex_early)]) =
     Return_frame (final_frame [(''Android'', ex_early)]) \<and>
   fst (run_flexible_cohort_analysis [(''iOS'', ex_late)]) =
     Return_frame (final_frame [(''iOS'', ex_late)]) \<and>
   map (\<lambda>r. (r ACQ, r OS, r WEEKNO)) (rows (final_frame ex_staggered)) =
     [(Some (Date 19723), Some (Str ''Android''), Some (Str ''Week 1'')),
      (Some (Date 19730), Some (Str ''iOS''), Some (Str ''Week 2''))] \<and>
   map (\<lambda>r. (r ACQ, r OS, r WEEKNO))
     (result_rows (resorted_concat (final_frame [(''Android'', ex_early)])
                                   (final_frame [(''iOS'', ex_late)]))) =
     [(Some (Date 19723), Some (Str ''Android''), Some (Str ''Week 1'')),
      (Some (Date 19730), Some (Str ''iOS''), Some (Str ''Week 1''))] \<and>
   mset (result_rows (resorted_concat (final_frame [(''Android'', ex_early)])
                                      (final_frame [(''iOS'', ex_late)])))
     \<noteq> mset (rows (final_frame ex_staggered))"
proof -
  let ?sep = "result_rows (resorted_concat (final_frame [(''Android'', ex_early)])
                                           (final_frame [(''iOS'', ex_late)]))"
  let ?joint = "rows (final_frame ex_staggered)"
  have ws: "map (\<lambda>r. r WEEKNO) ?sep = [Some (Str ''Week 1''), Some (Str ''Week 1'')]"
    unfolding weekno_of_keys ex_staggered_separately by simp
  have wj: "map (\<lambda>r. r WEEKNO) ?joint = [Some (Str ''Week 1''), Some (Str ''Week 2'')]"
    unfolding weekno_of_keys ex_staggered_at_once by simp
  have neq: "mset ?sep \<noteq> mset ?joint"
  proof
    assume "mset ?sep = mset ?joint"
    then have "image_mset (\<lambda>r. r WEEKNO) (mset ?sep) = image_mset (\<lambda>r. r WEEKNO) (mset ?joint)"
      by (rule arg_cong)
    then have "mset (map (\<lambda>r. r WEEKNO) ?sep) = mset (map (\<lambda>r. r WEEKNO) ?joint)"
      by (simp only: mset_map)
    then show False unfolding ws wj by simp
  qed
  show ?thesis
    by (intro conjI ex_staggered_runs ex_staggered_at_once ex_staggered_separately neq)
qed

lemma ex_wf: "wf_frame ex_early" "wf_frame ex_late" "wf_frame ex_ios" "wf_frame ex_android"
  by (simp_all add: wf_frame_def ex_early_def ex_late_def ex_ios_def ex_android_def)

theorem merge_at_once_or_separately_witness:
  "''Android'' \<noteq> ''iOS'' \<and> wf_frame ex_early \<and> wf_frame ex_late \<and>
   fst (run_flexible_cohort_analysis [(''Android'', ex_early), (''iOS'', ex_late)]) =
     Return_frame (final_frame ex_staggered) \<and>
   fst (run_flexible_cohort_analysis [(''Android'', ex_early)]) =
     Return_frame (final_frame [(''Android'', ex_early)]) \<and>
   fst (run_flexible_cohort_analysis [(''iOS'', ex_late)]) =
     Return_frame (final_frame [(''iOS'', ex_late)]) \<and>
   (\<exists>g. resorted_concat (final_frame [(''Android'', ex_early)])
                         (final_frame [(''iOS'', ex_late)]) = Inr g \<and>
      set (columns g) = set (columns (final_frame ex_staggered)) \<and>
      map (\<lambda>r. r(WEEKNO := None)) (rows g) =
        map (\<lambda>r. r(WEEKNO := None)) (rows (final_frame ex_staggered)))"
proof -
  have ne: "''Android'' \<noteq> ''iOS''" by simp
  have r: "fst (run_flexible_cohort_analysis [(''Android'', ex_early), (''iOS'', ex_late)]) =
      Return_frame (final_frame ex_staggered)"
    using ex_staggered_runs(1) by (simp only: ex_staggered_def)
  note m = merge_at_once_or_separately[OF ne ex_wf(1,2) r ex_staggered_runs(2,3)]
  show ?thesis
    by (intro conjI ne ex_wf(1,2) r ex_staggered_runs(2,3) m)
qed

end
